theory Spec2Isabelle
  imports Complex_Main
begin

section \<open>Contextual bandits with a policy-gradient agent\<close>

text \<open>
  A shallow embedding of the notebook \<^verbatim>\<open>tfrl_part1.1.ipynb\<close>: the class
  \<^verbatim>\<open>contextual_bandit\<close>, the TensorFlow graph built by \<^verbatim>\<open>agent.__init__\<close>,
  the training loop and the final summary loop.

  Conventions of the model:
  \<^item> Python integers are \<open>int\<close>; sizes and loop counters that only count up from
    zero are \<open>nat\<close>.
  \<^item> numpy arrays and tensors of rank 2 are lists of rows, \<open>real list list\<close>; the
    floating-point entries are idealised as real numbers, so the decimal literals of
    the source denote the corresponding rationals.
  \<^item> Every call of \<^verbatim>\<open>np.random\<close> is replaced by the value it returned, supplied
    from outside in a record of draws, one record for each episode.
  \<^item> Exceptions are values of the type \<open>error\<close>; a computation that may raise
    returns \<open>error + 'a\<close>.
\<close>

subsection \<open>Errors and numpy indexing\<close>

datatype error = IndexError | ValueError | InvalidArgumentError | NameError

text \<open>
  An index into an axis of extent \<open>n\<close>: numpy accepts \<open>-n \<le> i < n\<close>, counting
  negative indices from the end, and raises IndexError otherwise.
\<close>

definition np_index :: "nat \<Rightarrow> int \<Rightarrow> error + nat" where
  "np_index n i =
     (if 0 \<le> i \<and> i < int n then Inr (nat i)
      else if - int n \<le> i \<and> i < 0 then Inr (nat (i + int n))
      else Inl IndexError)"

text \<open>\<^verbatim>\<open>M[r, c]\<close> on an array of rank 2.\<close>

definition np_get2 :: "real list list \<Rightarrow> int \<Rightarrow> int \<Rightarrow> error + real" where
  "np_get2 M r c =
     (case np_index (length M) r of
        Inl e \<Rightarrow> Inl e
      | Inr r' \<Rightarrow>
          (case np_index (length (M ! r')) c of
             Inl e \<Rightarrow> Inl e
           | Inr c' \<Rightarrow> Inr (M ! r' ! c')))"

subsection \<open>The environment: class \<^verbatim>\<open>contextual_bandit\<close>\<close>

record contextual_bandit =
  state :: int
  bandits :: "real list list"
  num_bandits :: nat
  num_actions :: nat

text \<open>
  \<^verbatim>\<open>__init__\<close>: the table is \<^verbatim>\<open>[[0.2,0,-0.0,-5], [0.1,-5,1,0.25], [-5,5,5,5]]\<close>
  (the entry \<^verbatim>\<open>-0.0\<close> is the real number zero), \<^verbatim>\<open>num_bandits\<close> is
  \<^verbatim>\<open>bandits.shape[0]\<close> and \<^verbatim>\<open>num_actions\<close> is \<^verbatim>\<open>bandits.shape[1]\<close>.
\<close>

definition contextual_bandit_init :: contextual_bandit where
  "contextual_bandit_init =
     (let b = [[0.2, 0, - 0, - 5], [0.1, - 5, 1, 0.25], [- 5, 5, 5, 5]]
      in \<lparr>state = 0, bandits = b, num_bandits = length b, num_actions = length (hd b)\<rparr>)"

text \<open>
  \<^verbatim>\<open>getBandit\<close>: the argument \<open>d\<close> is the value returned by
  \<^verbatim>\<open>np.random.randint(0, len(self.bandits))\<close>, which raises ValueError when the
  range is empty. The value is stored in the field \<open>state\<close> and returned.
\<close>

definition getBandit :: "contextual_bandit \<Rightarrow> int \<Rightarrow> error + (contextual_bandit \<times> int)" where
  "getBandit env d =
     (if length (bandits env) = 0 then Inl ValueError
      else (let env' = env\<lparr>state := d\<rparr> in Inr (env', state env')))"

text \<open>
  \<^verbatim>\<open>pullArm(self, action)\<close>: the argument \<open>z\<close> is the value returned by
  \<^verbatim>\<open>np.random.randn(1)\<close>. The threshold is read at the row held in the field
  \<open>state\<close>.
\<close>

definition pullArm :: "contextual_bandit \<Rightarrow> int \<Rightarrow> real \<Rightarrow> error + int" where
  "pullArm env action z =
     (case np_get2 (bandits env) (state env) action of
        Inl e \<Rightarrow> Inl e
      | Inr bandit \<Rightarrow> (if z > bandit then Inr 1 else Inr (- 1)))"

text \<open>
  The pull operation as the specification words it, with the state passed by the
  caller: the threshold at \<open>(s, a)\<close> of a table, compared with the draw.
\<close>

definition pull_spec :: "real list list \<Rightarrow> int \<Rightarrow> int \<Rightarrow> real \<Rightarrow> error + int" where
  "pull_spec tbl s a z =
     (case np_get2 tbl s a of
        Inl e \<Rightarrow> Inl e
      | Inr t \<Rightarrow> (if t < z then Inr 1 else Inr (- 1)))"

subsection \<open>The agent: the graph built by \<^verbatim>\<open>agent.__init__\<close>\<close>

definition sigmoid :: "real \<Rightarrow> real" where
  "sigmoid x = 1 / (1 + exp (- x))"

text \<open>
  The only trainable variable is the weight matrix of the fully connected layer, of
  shape \<open>(s_size, a_size)\<close> and initialised by \<^verbatim>\<open>tf.ones_initializer()\<close>; the
  layer has no bias. The learning rate is fixed when the optimizer is built.
\<close>

record agent =
  lr :: real
  s_size :: nat
  a_size :: nat
  weights :: "real list list"

definition agent_init :: "real \<Rightarrow> nat \<Rightarrow> nat \<Rightarrow> agent" where
  "agent_init l s a = \<lparr>lr = l, s_size = s, a_size = a, weights = replicate s (replicate a 1)\<rparr>"

definition has_shape :: "real list list \<Rightarrow> nat \<Rightarrow> nat \<Rightarrow> bool" where
  "has_shape M r c = (length M = r \<and> list_all (\<lambda>row. length row = c) M)"

text \<open>
  \<^verbatim>\<open>slim.one_hot_encoding(self.state_in, s_size)\<close> for the feed \<^verbatim>\<open>[s]\<close>: one row of
  length \<open>s_size\<close>; an index outside \<open>[0, s_size)\<close> gives a row of zeros.
\<close>

definition one_hot_encoding :: "int \<Rightarrow> nat \<Rightarrow> real list list" where
  "one_hot_encoding s n = [map (\<lambda>k. if int k = s then 1 else 0) [0..<n]]"

text \<open>The product of \<open>A\<close> with a matrix \<open>B\<close> of \<open>m\<close> columns.\<close>

definition matmul :: "real list list \<Rightarrow> real list list \<Rightarrow> nat \<Rightarrow> real list list" where
  "matmul A B m =
     map (\<lambda>row. map (\<lambda>j. (\<Sum>k\<leftarrow>[0..<length B]. row ! k * B ! k ! j)) [0..<m]) A"

text \<open>
  \<^verbatim>\<open>slim.fully_connected\<close> with \<^verbatim>\<open>biases_initializer=None\<close> and
  \<^verbatim>\<open>activation_fn=tf.nn.sigmoid\<close>, then \<^verbatim>\<open>tf.reshape(output, [-1])\<close>.
\<close>

definition fully_connected :: "real list list \<Rightarrow> real list list \<Rightarrow> nat \<Rightarrow> real list list" where
  "fully_connected x W m = map (map sigmoid) (matmul x W m)"

definition agent_output :: "agent \<Rightarrow> int \<Rightarrow> real list" where
  "agent_output ag s =
     concat (fully_connected (one_hot_encoding s (s_size ag)) (weights ag) (a_size ag))"

text \<open>
  The scan behind \<^verbatim>\<open>argmax\<close>: the running best is replaced only by a strictly
  larger entry, so the first maximum wins. \<open>argmin_scan\<close> is its mirror image.
\<close>

fun argmax_scan :: "real list \<Rightarrow> nat \<Rightarrow> nat \<Rightarrow> real \<Rightarrow> nat" where
  "argmax_scan [] k best v = best"
| "argmax_scan (x # xs) k best v =
     (if v < x then argmax_scan xs (Suc k) k x else argmax_scan xs (Suc k) best v)"

fun argmin_scan :: "real list \<Rightarrow> nat \<Rightarrow> nat \<Rightarrow> real \<Rightarrow> nat" where
  "argmin_scan [] k best v = best"
| "argmin_scan (x # xs) k best v =
     (if x < v then argmin_scan xs (Suc k) k x else argmin_scan xs (Suc k) best v)"

definition tf_argmax :: "real list \<Rightarrow> error + nat" where
  "tf_argmax xs =
     (case xs of [] \<Rightarrow> Inl InvalidArgumentError | x # ys \<Rightarrow> Inr (argmax_scan ys 1 0 x))"

definition np_argmax :: "real list \<Rightarrow> error + nat" where
  "np_argmax xs = (case xs of [] \<Rightarrow> Inl ValueError | x # ys \<Rightarrow> Inr (argmax_scan ys 1 0 x))"

definition np_argmin :: "real list \<Rightarrow> error + nat" where
  "np_argmin xs = (case xs of [] \<Rightarrow> Inl ValueError | x # ys \<Rightarrow> Inr (argmin_scan ys 1 0 x))"

text \<open>\<^verbatim>\<open>self.chosen_action = tf.argmax(self.output, 0)\<close>, run with \<^verbatim>\<open>state_in: [s]\<close>.\<close>

definition chosen_action :: "agent \<Rightarrow> int \<Rightarrow> error + nat" where
  "chosen_action ag s = tf_argmax (agent_output ag s)"

text \<open>
  \<^verbatim>\<open>tf.slice(self.output, self.action_holder, [1])\<close> for the feed \<^verbatim>\<open>[a]\<close>: the slice
  must lie inside the vector.
\<close>

definition tf_slice1 :: "real list \<Rightarrow> int \<Rightarrow> error + real list" where
  "tf_slice1 xs b =
     (if 0 \<le> b \<and> b + 1 \<le> int (length xs) then Inr [xs ! nat b] else Inl InvalidArgumentError)"

definition responsible_weight :: "agent \<Rightarrow> int \<Rightarrow> int \<Rightarrow> error + real list" where
  "responsible_weight ag s a = tf_slice1 (agent_output ag s) a"

text \<open>\<^verbatim>\<open>self.loss = -(tf.log(self.responsible_weight) * self.reward_holder)\<close>, of shape [1].\<close>

definition loss :: "agent \<Rightarrow> int \<Rightarrow> int \<Rightarrow> real \<Rightarrow> error + real list" where
  "loss ag s a r =
     (case responsible_weight ag s a of
        Inl e \<Rightarrow> Inl e
      | Inr rw \<Rightarrow> Inr (map (\<lambda>x. - (ln x * r)) rw))"

text \<open>
  \<^verbatim>\<open>optimizer.minimize(self.loss)\<close> differentiates the loss backwards through the
  graph and subtracts the learning rate times the gradient from the variable.
  The gradient of the loss with respect to the vector \<open>output\<close>: negation, the
  product with the reward and the logarithm give \<open>- (r / output[a])\<close>; the gradient
  of the slice puts it at position \<open>a\<close> and zero elsewhere.
\<close>

definition grad_output :: "agent \<Rightarrow> int \<Rightarrow> int \<Rightarrow> real \<Rightarrow> real list" where
  "grad_output ag s a r =
     map (\<lambda>j. if int j = a then - (r / (agent_output ag s ! j)) else 0) [0..<a_size ag]"

text \<open>The gradient of the sigmoid with value \<open>y\<close> multiplies by \<open>y * (1 - y)\<close>.\<close>

definition grad_preactivation :: "agent \<Rightarrow> int \<Rightarrow> int \<Rightarrow> real \<Rightarrow> real list" where
  "grad_preactivation ag s a r =
     map (\<lambda>j. grad_output ag s a r ! j * (agent_output ag s ! j * (1 - agent_output ag s ! j)))
       [0..<a_size ag]"

text \<open>
  The gradient of the matrix product with respect to the weights is the transposed
  input times the incoming gradient: entry \<open>(k, j)\<close> is the \<open>k\<close>-th entry of the
  one-hot row times the \<open>j\<close>-th entry of the gradient.
\<close>

definition grad_weights :: "agent \<Rightarrow> int \<Rightarrow> int \<Rightarrow> real \<Rightarrow> real list list" where
  "grad_weights ag s a r =
     map (\<lambda>k. map (\<lambda>j. hd (one_hot_encoding s (s_size ag)) ! k * grad_preactivation ag s a r ! j)
                [0..<a_size ag])
       [0..<s_size ag]"

definition apply_gradient_descent :: "real \<Rightarrow> real list list \<Rightarrow> real list list \<Rightarrow> real list list" where
  "apply_gradient_descent l W G = map2 (\<lambda>row grow. map2 (\<lambda>w g. w - l * g) row grow) W G"

text \<open>
  \<^verbatim>\<open>sess.run(myAgent.update, ...)\<close> with the feeds \<^verbatim>\<open>state_in: [s]\<close>,
  \<^verbatim>\<open>action_holder: [a]\<close> and \<^verbatim>\<open>reward_holder: [r]\<close>. The forward pass runs first, so
  a slice out of range raises before any weight is written.
\<close>

definition update :: "agent \<Rightarrow> int \<Rightarrow> int \<Rightarrow> real \<Rightarrow> error + agent" where
  "update ag s a r =
     (case loss ag s a r of
        Inl e \<Rightarrow> Inl e
      | Inr l \<Rightarrow>
          Inr (ag\<lparr>weights := apply_gradient_descent (lr ag) (weights ag) (grad_weights ag s a r)\<rparr>))"

subsection \<open>The training loop\<close>

text \<open>
  What \<^verbatim>\<open>np.random\<close> returned in one episode: \<^verbatim>\<open>randint(0, len(bandits))\<close> in
  \<^verbatim>\<open>getBandit\<close>, \<^verbatim>\<open>rand(1)\<close> and \<^verbatim>\<open>randint(num_actions)\<close> in the loop,
  \<^verbatim>\<open>randn(1)\<close> in \<^verbatim>\<open>pullArm\<close>.
\<close>

record draws =
  randint_state :: int
  rand_explore :: real
  randint_action :: int
  randn_pull :: real

text \<open>
  The ranges numpy promises for these calls: \<^verbatim>\<open>randint(low, high)\<close> lies in
  \<open>[low, high)\<close>, \<^verbatim>\<open>rand\<close> lies in \<open>[0, 1)\<close>, \<^verbatim>\<open>randn\<close> is any real number.
\<close>

definition valid_draws :: "contextual_bandit \<Rightarrow> draws \<Rightarrow> bool" where
  "valid_draws env d =
     (0 \<le> randint_state d \<and> randint_state d < int (length (bandits env)) \<and>
      0 \<le> randint_action d \<and> randint_action d < int (num_actions env) \<and>
      0 \<le> rand_explore d \<and> rand_explore d < 1)"

text \<open>
  Standard output is a list of lines. The line of the progress report carries the
  vector of means itself, since how numpy prints an array of floats is not modelled.
\<close>

datatype out_line = Mean_reward_line string "real list" | Text_line string

record train_state =
  cBandit :: contextual_bandit
  myAgent :: agent
  total_reward :: "real list list"
  ww :: "real list list option"
  stdout :: "out_line list"

definition total_episodes :: nat where
  "total_episodes = 10000"

definition eps :: real where
  "eps = 0.1"

text \<open>\<^verbatim>\<open>str\<close> of a non-negative integer.\<close>

fun str_nat :: "nat \<Rightarrow> string" where
  "str_nat n =
     (if n < 10 then [''0123456789'' ! n]
      else str_nat (n div 10) @ [''0123456789'' ! (n mod 10)])"

declare str_nat.simps [simp del]

text \<open>
  The cell before the loop: the bandits, the agent with \<^verbatim>\<open>lr=0.001\<close>, the score
  table of zeros. The name \<^verbatim>\<open>ww\<close> is unbound until the first episode.
\<close>

definition train_init :: train_state where
  "train_init =
     (let cB = contextual_bandit_init
      in \<lparr>cBandit = cB,
          myAgent = agent_init 0.001 (num_bandits cB) (num_actions cB),
          total_reward = replicate (num_bandits cB) (replicate (num_actions cB) 0),
          ww = None,
          stdout = []\<rparr>)"

text \<open>
  The choice between a random action and the action of the network.
  \<^verbatim>\<open>np.random.randint(n)\<close> raises ValueError for \<open>n \<le> 0\<close>.
\<close>

definition choose_action :: "train_state \<Rightarrow> draws \<Rightarrow> int \<Rightarrow> error + int" where
  "choose_action st d s =
     (if rand_explore d < eps then
        (if num_actions (cBandit st) = 0 then Inl ValueError else Inr (randint_action d))
      else (case chosen_action (myAgent st) s of
              Inl e \<Rightarrow> Inl e
            | Inr k \<Rightarrow> Inr (int k)))"

text \<open>\<^verbatim>\<open>total_reward[s, action] += reward\<close>.\<close>

definition np_add2 :: "real list list \<Rightarrow> int \<Rightarrow> int \<Rightarrow> real \<Rightarrow> error + real list list" where
  "np_add2 M r c v =
     (case np_index (length M) r of
        Inl e \<Rightarrow> Inl e
      | Inr r' \<Rightarrow>
          (case np_index (length (M ! r')) c of
             Inl e \<Rightarrow> Inl e
           | Inr c' \<Rightarrow> Inr (M[r' := (M ! r')[c' := M ! r' ! c' + v]])))"

text \<open>\<^verbatim>\<open>np.mean(total_reward, axis=1)\<close>.\<close>

definition np_mean_axis1 :: "real list list \<Rightarrow> real list" where
  "np_mean_axis1 M = map (\<lambda>row. sum_list row / real (length row)) M"

text \<open>
  The body of the loop for the counter value \<open>n\<close>. The weights fetched into
  \<^verbatim>\<open>ww\<close> by the same \<^verbatim>\<open>sess.run\<close> as the update are taken to be the updated
  ones. An exception ends the run, and the model then keeps the error only.
\<close>

definition episode :: "draws \<Rightarrow> nat \<Rightarrow> train_state \<Rightarrow> error + train_state" where
  "episode d n st =
     (case getBandit (cBandit st) (randint_state d) of
        Inl e \<Rightarrow> Inl e
      | Inr (env', s) \<Rightarrow>
     (case choose_action st d s of
        Inl e \<Rightarrow> Inl e
      | Inr action \<Rightarrow>
     (case pullArm env' action (randn_pull d) of
        Inl e \<Rightarrow> Inl e
      | Inr reward \<Rightarrow>
     (case update (myAgent st) s action (real_of_int reward) of
        Inl e \<Rightarrow> Inl e
      | Inr ag' \<Rightarrow>
     (case np_add2 (total_reward st) s action (real_of_int reward) of
        Inl e \<Rightarrow> Inl e
      | Inr tr' \<Rightarrow>
          Inr (st\<lparr>cBandit := env',
                  myAgent := ag',
                  ww := Some (weights ag'),
                  total_reward := tr',
                  stdout :=
                    (if n mod 500 = 0
                     then stdout st @
                       [Mean_reward_line
                          (''Mean reward for each of the '' @ str_nat (num_bandits env') @
                           '' bandits: '')
                          (np_mean_axis1 tr')]
                     else stdout st)\<rparr>))))))"

text \<open>
  \<^verbatim>\<open>while i < total_episodes: ...; i += 1\<close>, with the draws of episode \<open>n\<close> given
  by \<open>rnd n\<close>.
\<close>

function train_loop :: "(nat \<Rightarrow> draws) \<Rightarrow> nat \<Rightarrow> train_state \<Rightarrow> error + train_state" where
  "train_loop rnd n st =
     (if n < total_episodes then
        (case episode (rnd n) n st of
           Inl e \<Rightarrow> Inl e
         | Inr st' \<Rightarrow> train_loop rnd (n + 1) st')
      else Inr st)"
  by pat_completeness auto
termination
  by (relation "measure (\<lambda>(rnd, n, st). total_episodes - n)") auto

declare train_loop.simps [simp del]

text \<open>The state after the first \<open>n\<close> passes through the body of the loop.\<close>

primrec state_after :: "(nat \<Rightarrow> draws) \<Rightarrow> nat \<Rightarrow> error + train_state" where
  "state_after rnd 0 = Inr train_init"
| "state_after rnd (Suc n) =
     (case state_after rnd n of
        Inl e \<Rightarrow> Inl e
      | Inr st \<Rightarrow> episode (rnd n) n st)"

subsection \<open>The final summary\<close>

text \<open>\<^verbatim>\<open>M[a]\<close> for a loop index \<open>a\<close> of \<^verbatim>\<open>range\<close>.\<close>

definition np_row :: "real list list \<Rightarrow> nat \<Rightarrow> error + real list" where
  "np_row M a = (if a < length M then Inr (M ! a) else Inl IndexError)"

text \<open>
  The two lines printed in the body of \<^verbatim>\<open>for a in range(cBandit.num_bandits)\<close>:
  the first from the values of \<^verbatim>\<open>np.argmax(ww[a])\<close> and \<^verbatim>\<open>a\<close>, each printed
  plus one; the second from the outcome of the comparison.
\<close>

definition promising_line :: "nat \<Rightarrow> nat \<Rightarrow> string" where
  "promising_line k a =
     ''The agent thinks action '' @ str_nat (k + 1) @ '' for bandit '' @ str_nat (a + 1) @
     '' is the most promising....''"

definition verdict_line :: "bool \<Rightarrow> string" where
  "verdict_line b = (if b then ''...and it was right!'' else ''...and it was wrong!'')"

text \<open>
  One pass through the body of the loop: the line with \<^verbatim>\<open>np.argmax(ww[a])+1\<close> and
  \<^verbatim>\<open>a+1\<close>, then the verdict from
  \<^verbatim>\<open>np.argmax(ww[a]) == np.argmin(cBandit.bandits[a])\<close>.
\<close>

definition summary_row :: "contextual_bandit \<Rightarrow> real list list \<Rightarrow> nat \<Rightarrow> error + string list" where
  "summary_row env w a =
     (case np_row w a of
        Inl e \<Rightarrow> Inl e
      | Inr row \<Rightarrow>
     (case np_argmax row of
        Inl e \<Rightarrow> Inl e
      | Inr k \<Rightarrow>
     (case np_argmax row of
        Inl e \<Rightarrow> Inl e
      | Inr k' \<Rightarrow>
     (case np_row (bandits env) a of
        Inl e \<Rightarrow> Inl e
      | Inr thresholds \<Rightarrow>
     (case np_argmin thresholds of
        Inl e \<Rightarrow> Inl e
      | Inr m \<Rightarrow> Inr [promising_line k a, verdict_line (k' = m)])))))"




subsection \<open>Predicates used in the statements\<close>

text \<open>
  \<open>first_max_at xs k\<close>: position \<open>k\<close> holds a maximum of \<open>xs\<close> and every earlier
  entry is strictly smaller; \<open>first_min_at\<close> likewise for the minimum.
\<close>

definition first_max_at :: "real list \<Rightarrow> nat \<Rightarrow> bool" where
  "first_max_at xs k =
     (k < length xs \<and> list_all (\<lambda>x. x \<le> xs ! k) xs \<and> list_all (\<lambda>x. x < xs ! k) (take k xs))"

definition first_min_at :: "real list \<Rightarrow> nat \<Rightarrow> bool" where
  "first_min_at xs k =
     (k < length xs \<and> list_all (\<lambda>x. xs ! k \<le> x) xs \<and> list_all (\<lambda>x. xs ! k < x) (take k xs))"

text \<open>
  What stays true of the program state from the cell before the loop to the end of
  training: the table, the sizes, the learning rate and the shapes of both matrices.
\<close>

definition train_inv :: "train_state \<Rightarrow> bool" where
  "train_inv st =
     (bandits (cBandit st) = bandits contextual_bandit_init \<and>
      num_bandits (cBandit st) = 3 \<and> num_actions (cBandit st) = 4 \<and>
      s_size (myAgent st) = 3 \<and> a_size (myAgent st) = 4 \<and> lr (myAgent st) = 1 / 1000 \<and>
      has_shape (weights (myAgent st)) 3 4 \<and> has_shape (total_reward st) 3 4)"

section \<open>Properties\<close>

subsection \<open>Indexing\<close>

lemma np_index_in_range: "0 \<le> i \<Longrightarrow> i < int n \<Longrightarrow> np_index n i = Inr (nat i)"
  by (simp add: np_index_def)

lemma int_below_3: "0 \<le> (s::int) \<Longrightarrow> s < 3 \<Longrightarrow> s = 0 \<or> s = 1 \<or> s = 2"
  by arith

lemma int_below_4: "0 \<le> (a::int) \<Longrightarrow> a < 4 \<Longrightarrow> a = 0 \<or> a = 1 \<or> a = 2 \<or> a = 3"
  by arith

lemma bandits_init:
  "bandits contextual_bandit_init = [[1/5, 0, 0, - 5], [1/10, - 5, 1, 1/4], [- 5, 5, 5, 5]]"
  by (simp add: contextual_bandit_init_def)

lemma num_init:
  "num_bandits contextual_bandit_init = 3" "num_actions contextual_bandit_init = 4"
  by (simp_all add: contextual_bandit_init_def)

lemma np_get2_in_range:
  assumes "0 \<le> r" "r < int (length M)" "0 \<le> c" "c < int (length (M ! nat r))"
  shows "np_get2 M r c = Inr (M ! nat r ! nat c)"
  using assms by (simp add: np_get2_def np_index_in_range)

subsection \<open>The environment\<close>

lemma pullArm_in_range:
  assumes "bandits env = bandits contextual_bandit_init"
    and "0 \<le> s" and "s < 3" and "0 \<le> a" and "a < 4"
  shows "pullArm (env\<lparr>state := s\<rparr>) a z =
           Inr (if z > bandits env ! nat s ! nat a then 1 else - 1)"
proof -
  from assms(2,3) have s: "s = 0 \<or> s = 1 \<or> s = 2"
    by (rule int_below_3)
  from assms(4,5) have a: "a = 0 \<or> a = 1 \<or> a = 2 \<or> a = 3"
    by (rule int_below_4)
  have "np_get2 (bandits env) s a = Inr (bandits env ! nat s ! nat a)"
    using s a by (auto simp: assms(1) bandits_init np_get2_def np_index_def)
  then show ?thesis
    by (simp add: pullArm_def)
qed

subsection \<open>The sigmoid and the forward pass\<close>


lemma sigmoid_less_one: "sigmoid x < 1"
  by (simp add: sigmoid_def add_pos_pos)

lemma sigmoid_less_iff: "sigmoid x < sigmoid y \<longleftrightarrow> x < y"
proof -
  have px: "0 < 1 + exp (- x)" and py: "0 < 1 + exp (- y)"
    by (simp_all add: add_pos_pos)
  have "sigmoid x < sigmoid y \<longleftrightarrow> inverse (1 + exp (- x)) < inverse (1 + exp (- y))"
    by (simp add: sigmoid_def inverse_eq_divide)
  also have "\<dots> \<longleftrightarrow> 1 + exp (- y) < 1 + exp (- x)"
    using px py by (rule inverse_less_iff_less)
  finally show ?thesis by simp
qed

lemma sigmoid_le_iff: "sigmoid x \<le> sigmoid y \<longleftrightarrow> x \<le> y"
  using sigmoid_less_iff [of y x] by (simp add: not_less [symmetric])



lemma dot_one_hot:
  "(\<Sum>k\<leftarrow>[0..<n]. map (\<lambda>k. if int k = s then 1 else 0) [0..<n] ! k * f k) =
     (if 0 \<le> s \<and> s < int n then f (nat s) else (0::real))"
proof -
  have "(\<Sum>k\<leftarrow>[0..<n]. map (\<lambda>k. if int k = s then 1 else 0) [0..<n] ! k * f k) =
        (\<Sum>k\<leftarrow>[0..<n]. if k = nat s \<and> 0 \<le> s then f k else 0)"
    by (rule arg_cong [where f = sum_list], rule map_cong) auto
  also have "\<dots> = (\<Sum>k\<in>{0..<n}. if k = nat s \<and> 0 \<le> s then f k else 0)"
    by (simp add: interv_sum_list_conv_sum_set_nat)
  also have "\<dots> = (if 0 \<le> s \<and> s < int n then f (nat s) else 0)"
    by (cases "0 \<le> s") (auto simp: nat_less_iff)
  finally show ?thesis .
qed

lemma has_shape_nth: "has_shape M r c \<Longrightarrow> k < r \<Longrightarrow> length (M ! k) = c"
  by (simp add: has_shape_def list_all_length)

lemma agent_output_eq:
  assumes "length (weights ag) = s_size ag"
  shows "agent_output ag s =
           map (\<lambda>j. sigmoid (if 0 \<le> s \<and> s < int (s_size ag) then weights ag ! nat s ! j else 0))
             [0..<a_size ag]"
  by (simp add: agent_output_def fully_connected_def matmul_def one_hot_encoding_def assms
      dot_one_hot o_def)

lemma agent_output_row:
  assumes "has_shape (weights ag) (s_size ag) (a_size ag)" "0 \<le> s" "s < int (s_size ag)"
  shows "agent_output ag s = map sigmoid (weights ag ! nat s)"
proof -
  have len: "length (weights ag) = s_size ag"
    using assms(1) by (simp add: has_shape_def)
  have "length (weights ag ! nat s) = a_size ag"
    using assms by (intro has_shape_nth [OF assms(1)]) (simp add: nat_less_iff)
  then show ?thesis
    using assms(2,3) by (auto simp: agent_output_eq [OF len] intro!: nth_equalityI)
qed

subsection \<open>The scans for the first maximum and minimum\<close>

lemma argmax_scan_first_max:
  "first_max_at ys best \<Longrightarrow> first_max_at (ys @ xs) (argmax_scan xs (length ys) best (ys ! best))"
proof (induction xs arbitrary: ys best)
  case Nil
  then show ?case by simp
next
  case (Cons x xs)
  show ?case
  proof (cases "ys ! best < x")
    case True
    have "first_max_at (ys @ [x]) (length ys)"
      using Cons.prems True by (auto simp: first_max_at_def list_all_iff)
    from Cons.IH [OF this] True show ?thesis by simp
  next
    case False
    have "first_max_at (ys @ [x]) best"
      using Cons.prems False by (auto simp: first_max_at_def nth_append)
    moreover have "(ys @ [x]) ! best = ys ! best"
      using Cons.prems by (simp add: first_max_at_def nth_append)
    ultimately have "first_max_at ((ys @ [x]) @ xs) (argmax_scan xs (length (ys @ [x])) best (ys ! best))"
      using Cons.IH [of "ys @ [x]" best] by simp
    with False show ?thesis by simp
  qed
qed


lemma argmax_scan_head: "first_max_at (x # xs) (argmax_scan xs (Suc 0) 0 x)"
  using argmax_scan_first_max [of "[x]" 0 xs] by (simp add: first_max_at_def)



lemma first_min_at_unique: "first_min_at xs k \<Longrightarrow> first_min_at xs k' \<Longrightarrow> k = k'"
proof (rule ccontr)
  assume a: "first_min_at xs k" "first_min_at xs k'" and ne: "k \<noteq> k'"
  have *: "\<And>p q. first_min_at xs p \<Longrightarrow> first_min_at xs q \<Longrightarrow> p < q \<Longrightarrow> False"
  proof -
    fix p q assume p: "first_min_at xs p" and q: "first_min_at xs q" and "p < q"
    then have "xs ! q < xs ! p"
      by (auto simp: first_min_at_def list_all_length)
    moreover have "xs ! p \<le> xs ! q"
      using p q by (auto simp: first_min_at_def list_all_length)
    ultimately show False by simp
  qed
  from ne have "k < k' \<or> k' < k" by arith
  with * a show False by blast
qed



lemma tf_argmax_first_max: "xs \<noteq> [] \<Longrightarrow> \<exists>k. tf_argmax xs = Inr k \<and> first_max_at xs k"
  by (cases xs) (simp_all add: tf_argmax_def argmax_scan_head)

lemma np_argmax_first_max: "xs \<noteq> [] \<Longrightarrow> \<exists>k. np_argmax xs = Inr k \<and> first_max_at xs k"
  by (cases xs) (simp_all add: np_argmax_def argmax_scan_head)




subsection \<open>Loss, gradient and update\<close>

lemma has_shape_row:
  assumes "has_shape M r c" "0 \<le> s" "s < int r"
  shows "length (M ! nat s) = c"
  using assms by (intro has_shape_nth [OF assms(1)]) (simp add: nat_less_iff)

lemma agent_output_length: "length (weights ag) = s_size ag \<Longrightarrow> length (agent_output ag s) = a_size ag"
  by (simp add: agent_output_eq)

lemma agent_output_nth:
  assumes "has_shape (weights ag) (s_size ag) (a_size ag)" "0 \<le> s" "s < int (s_size ag)"
    "j < a_size ag"
  shows "agent_output ag s ! j = sigmoid (weights ag ! nat s ! j)"
  using assms by (simp add: agent_output_row has_shape_row)

lemma loss_in_range:
  assumes "has_shape (weights ag) (s_size ag) (a_size ag)" "0 \<le> s" "s < int (s_size ag)"
    "0 \<le> a" "a < int (a_size ag)"
  shows "loss ag s a r = Inr [- (ln (sigmoid (weights ag ! nat s ! nat a)) * r)]"
proof -
  have "length (agent_output ag s) = a_size ag"
    using assms(1) by (simp add: agent_output_length has_shape_def)
  moreover have "agent_output ag s ! nat a = sigmoid (weights ag ! nat s ! nat a)"
    using assms by (intro agent_output_nth) (simp_all add: nat_less_iff)
  ultimately show ?thesis
    using assms(4,5) by (simp add: loss_def responsible_weight_def tf_slice1_def)
qed


lemma grad_weights_shape: "has_shape (grad_weights ag s a r) (s_size ag) (a_size ag)"
  by (simp add: has_shape_def grad_weights_def list_all_iff)

lemma apply_gradient_descent_shape:
  "has_shape W n m \<Longrightarrow> has_shape G n m \<Longrightarrow> has_shape (apply_gradient_descent l W G) n m"
  by (auto simp: has_shape_def apply_gradient_descent_def list_all_length)


lemma update_in_range:
  assumes "has_shape (weights ag) (s_size ag) (a_size ag)" "0 \<le> s" "s < int (s_size ag)"
    "0 \<le> a" "a < int (a_size ag)"
  shows "update ag s a r =
           Inr (ag\<lparr>weights := apply_gradient_descent (lr ag) (weights ag) (grad_weights ag s a r)\<rparr>)"
  by (simp add: update_def loss_in_range [OF assms])


subsection \<open>One episode and the loop\<close>

lemma train_inv_init: "train_inv train_init"
  by (simp add: train_inv_def train_init_def Let_def num_init agent_init_def has_shape_def
      list_all_iff)

lemma valid_draws_inv:
  "train_inv st \<Longrightarrow> valid_draws (cBandit st) d = valid_draws contextual_bandit_init d"
  by (simp add: train_inv_def valid_draws_def num_init)

lemma valid_draws_init:
  "valid_draws contextual_bandit_init d \<longleftrightarrow>
     0 \<le> randint_state d \<and> randint_state d < 3 \<and> 0 \<le> randint_action d \<and> randint_action d < 4 \<and>
     0 \<le> rand_explore d \<and> rand_explore d < 1"
  by (simp add: valid_draws_def num_init bandits_init)

lemma getBandit_inv:
  "train_inv st \<Longrightarrow>
     getBandit (cBandit st) d = Inr ((cBandit st)\<lparr>state := d\<rparr>, d)"
  by (simp add: getBandit_def train_inv_def bandits_init)

lemma chosen_action_in_range:
  assumes "length (weights ag) = s_size ag" "0 < a_size ag"
  shows "\<exists>k. chosen_action ag s = Inr k \<and> k < a_size ag \<and> first_max_at (agent_output ag s) k"
proof -
  have len: "length (agent_output ag s) = a_size ag"
    using assms(1) by (rule agent_output_length)
  with assms(2) have "agent_output ag s \<noteq> []" by auto
  from tf_argmax_first_max [OF this] len show ?thesis
    by (auto simp: chosen_action_def first_max_at_def)
qed

lemma choose_action_in_range:
  assumes "train_inv st" "valid_draws contextual_bandit_init d"
  shows "\<exists>action. choose_action st d s = Inr action \<and> 0 \<le> action \<and> action < 4"
proof (cases "rand_explore d < eps")
  case True
  with assms show ?thesis
    by (simp add: choose_action_def train_inv_def valid_draws_init)
next
  case False
  have "length (weights (myAgent st)) = s_size (myAgent st)" "0 < a_size (myAgent st)"
    using assms(1) by (simp_all add: train_inv_def has_shape_def)
  from chosen_action_in_range [OF this, of s] assms(1) False show ?thesis
    by (auto simp: choose_action_def train_inv_def)
qed

lemma np_add2_in_range:
  assumes "has_shape M n m" "0 \<le> r" "r < int n" "0 \<le> c" "c < int m"
  shows "np_add2 M r c v = Inr (M[nat r := (M ! nat r)[nat c := M ! nat r ! nat c + v]])"
proof -
  have "length M = n" using assms(1) by (simp add: has_shape_def)
  moreover have "length (M ! nat r) = m" using assms(1-3) by (rule has_shape_row)
  ultimately show ?thesis
    using assms(2-5) by (simp add: np_add2_def np_index_in_range)
qed

lemma has_shape_update:
  "has_shape M n m \<Longrightarrow> has_shape (M[k := (M ! k)[j := v]]) n m"
proof (cases "k < length M")
  case True
  assume "has_shape M n m"
  with True show ?thesis
    by (auto simp: has_shape_def list_all_length nth_list_update)
next
  case False
  assume "has_shape M n m"
  with False show ?thesis by (simp add: list_update_beyond)
qed

lemma episode_in_range:
  assumes inv: "train_inv st" and dr: "valid_draws contextual_bandit_init d"
  shows "\<exists>action reward ag' tr'.
           choose_action st d (randint_state d) = Inr action \<and> 0 \<le> action \<and> action < 4 \<and>
           pullArm ((cBandit st)\<lparr>state := randint_state d\<rparr>) action (randn_pull d) = Inr reward \<and>
           (reward = 1 \<or> reward = - 1) \<and>
           update (myAgent st) (randint_state d) action (real_of_int reward) = Inr ag' \<and>
           ag' = (myAgent st)\<lparr>weights :=
                   apply_gradient_descent (lr (myAgent st)) (weights (myAgent st))
                     (grad_weights (myAgent st) (randint_state d) action (real_of_int reward))\<rparr> \<and>
           np_add2 (total_reward st) (randint_state d) action (real_of_int reward) = Inr tr' \<and>
           has_shape tr' 3 4 \<and>
           episode d n st =
             Inr (st\<lparr>cBandit := (cBandit st)\<lparr>state := randint_state d\<rparr>,
                     myAgent := ag',
                     ww := Some (weights ag'),
                     total_reward := tr',
                     stdout :=
                       (if n mod 500 = 0
                        then stdout st @
                          [Mean_reward_line ''Mean reward for each of the 3 bandits: ''
                             (np_mean_axis1 tr')]
                        else stdout st)\<rparr>)"
proof -
  let ?s = "randint_state d"
  let ?env = "(cBandit st)\<lparr>state := ?s\<rparr>"
  have s: "0 \<le> ?s" "?s < 3"
    using dr by (simp_all add: valid_draws_init)
  obtain action where act: "choose_action st d ?s = Inr action" "0 \<le> action" "action < 4"
    using choose_action_in_range [OF inv dr] by blast
  have tbl: "bandits (cBandit st) = bandits contextual_bandit_init"
    using inv by (simp add: train_inv_def)
  have pull: "pullArm ?env action (randn_pull d) =
                Inr (if randn_pull d > bandits (cBandit st) ! nat ?s ! nat action then 1 else - 1)"
    by (rule pullArm_in_range [OF tbl s act(2,3)])
  define reward :: int
    where "reward = (if randn_pull d > bandits (cBandit st) ! nat ?s ! nat action then 1 else - 1)"
  have rw: "reward = 1 \<or> reward = - 1"
    by (simp add: reward_def)
  have shp: "has_shape (weights (myAgent st)) (s_size (myAgent st)) (a_size (myAgent st))"
    and sz: "int (s_size (myAgent st)) = 3" "int (a_size (myAgent st)) = 4"
    and tr: "has_shape (total_reward st) 3 4"
    using inv by (simp_all add: train_inv_def)
  have upd: "update (myAgent st) ?s action (real_of_int reward) =
               Inr ((myAgent st)\<lparr>weights :=
                   apply_gradient_descent (lr (myAgent st)) (weights (myAgent st))
                     (grad_weights (myAgent st) ?s action (real_of_int reward))\<rparr>)"
    using s act(2,3) by (intro update_in_range [OF shp]) (simp_all add: sz)
  have add: "np_add2 (total_reward st) ?s action (real_of_int reward) =
               Inr ((total_reward st)[nat ?s := (total_reward st ! nat ?s)
                      [nat action := total_reward st ! nat ?s ! nat action + real_of_int reward]])"
    using s act(2,3) by (intro np_add2_in_range [OF tr]) simp_all
  have nb: "str_nat (num_bandits (cBandit st)) = ''3''"
    using inv by (simp add: train_inv_def str_nat.simps)
  show ?thesis
    using act pull rw upd add has_shape_update [OF tr]
    by (simp add: episode_def getBandit_inv [OF inv] reward_def [symmetric] nb)
qed

lemma episode_inv:
  assumes "train_inv st" "valid_draws contextual_bandit_init d"
  shows "\<exists>st'. episode d n st = Inr st' \<and> train_inv st'"
proof -
  from episode_in_range [OF assms, of n] obtain action reward ag' tr' where
    e: "episode d n st =
             Inr (st\<lparr>cBandit := (cBandit st)\<lparr>state := randint_state d\<rparr>,
                     myAgent := ag',
                     ww := Some (weights ag'),
                     total_reward := tr',
                     stdout :=
                       (if n mod 500 = 0
                        then stdout st @
                          [Mean_reward_line ''Mean reward for each of the 3 bandits: ''
                             (np_mean_axis1 tr')]
                        else stdout st)\<rparr>)"
    and ag: "ag' = (myAgent st)\<lparr>weights :=
                   apply_gradient_descent (lr (myAgent st)) (weights (myAgent st))
                     (grad_weights (myAgent st) (randint_state d) action (real_of_int reward))\<rparr>"
    and tr: "has_shape tr' 3 4"
    by blast
  have "has_shape (weights ag') 3 4"
    using assms(1) grad_weights_shape [of "myAgent st" "randint_state d" action "real_of_int reward"]
    by (simp add: ag train_inv_def apply_gradient_descent_shape)
  with assms(1) tr show ?thesis
    by (simp add: e train_inv_def ag)
qed

lemma state_after_inv:
  assumes "\<forall>k<n. valid_draws contextual_bandit_init (rnd k)"
  shows "\<exists>st. state_after rnd n = Inr st \<and> train_inv st"
  using assms
proof (induction n)
  case 0
  show ?case by (simp add: train_inv_init)
next
  case (Suc n)
  then obtain st where st: "state_after rnd n = Inr st" "train_inv st"
    by auto
  from Suc.prems have "valid_draws contextual_bandit_init (rnd n)"
    by simp
  from episode_inv [OF st(2) this, of n] st(1) show ?case
    by simp
qed

lemma state_after_error:
  "state_after rnd n = Inl e \<Longrightarrow> n \<le> m \<Longrightarrow> state_after rnd m = Inl e"
  by (induction m) (auto simp: le_Suc_eq)

lemma train_loop_state_after:
  "n \<le> total_episodes \<Longrightarrow> state_after rnd n = Inr st \<Longrightarrow>
     train_loop rnd n st = state_after rnd total_episodes"
proof (induction rnd n st rule: train_loop.induct)
  case (1 rnd n st)
  note unfold = train_loop.simps [of rnd n st]
  show ?case
  proof (cases "n < total_episodes")
    case True
    show ?thesis
    proof (cases "episode (rnd n) n st")
      case (Inl e)
      have "state_after rnd (Suc n) = Inl e"
        by (simp add: "1.prems"(2) Inl)
      moreover have "Suc n \<le> total_episodes"
        using True by simp
      ultimately have "state_after rnd total_episodes = Inl e"
        by (rule state_after_error)
      moreover have "train_loop rnd n st = Inl e"
        by (subst unfold) (simp add: True Inl)
      ultimately show ?thesis by simp
    next
      case (Inr st')
      have sa: "state_after rnd (n + 1) = Inr st'"
        by (simp add: "1.prems"(2) Inr)
      have le: "n + 1 \<le> total_episodes"
        using True by simp
      have "train_loop rnd (n + 1) st' = state_after rnd total_episodes"
        by (rule "1.IH" [OF True Inr le sa])
      moreover have "train_loop rnd n st = train_loop rnd (n + 1) st'"
        by (subst unfold) (simp add: True Inr)
      ultimately show ?thesis by simp
    qed
  next
    case False
    with "1.prems"(1) have "n = total_episodes" by simp
    moreover have "train_loop rnd n st = Inr st"
      by (subst unfold) (simp add: False)
    ultimately show ?thesis
      using "1.prems"(2) by simp
  qed
qed

lemma train_loop_eq: "train_loop rnd 0 train_init = state_after rnd total_episodes"
  by (rule train_loop_state_after) simp_all

subsection \<open>Further facts about the agent\<close>




text \<open>
  The loss does not depend on any entry of the weight matrix other than the one at
  \<open>(s, a)\<close>, which is why the gradient computed above is zero there.
\<close>

lemma loss_other_cell:
  assumes "has_shape (weights ag) (s_size ag) (a_size ag)"
    and "0 \<le> s" and "s < int (s_size ag)" and "0 \<le> a" and "a < int (a_size ag)"
    and "(k, j) \<noteq> (nat s, nat a)"
  shows "loss (ag\<lparr>weights := (weights ag)[k := (weights ag ! k)[j := x]]\<rparr>) s a r = loss ag s a r"
proof -
  let ?W = "(weights ag)[k := (weights ag ! k)[j := x]]"
  let ?ag = "ag\<lparr>weights := ?W\<rparr>"
  have shp: "has_shape (weights ?ag) (s_size ?ag) (a_size ?ag)"
    using assms(1) by (simp add: has_shape_update)
  have len: "length (weights ag) = s_size ag"
    using assms(1) by (simp add: has_shape_def)
  have "?W ! nat s ! nat a = weights ag ! nat s ! nat a"
  proof (cases "k = nat s")
    case True
    with assms(6) have "j \<noteq> nat a" by simp
    with True len assms(2,3) show ?thesis by simp
  next
    case False
    then show ?thesis by simp
  qed
  then show ?thesis
    using loss_in_range [OF shp, of s a r] loss_in_range [OF assms(1-5), of r] assms(2-5)
    by simp
qed






subsection \<open>Standard output and the steps of the run\<close>

lemma choose_action_stdout [simp]: "choose_action (st\<lparr>stdout := out\<rparr>) d s = choose_action st d s"
  by (simp add: choose_action_def)







lemma train_inv_stdout [simp]: "train_inv (st\<lparr>stdout := out\<rparr>) = train_inv st"
  by (simp add: train_inv_def)

lemma draws_prefix:
  "\<forall>k<total_episodes. valid_draws contextual_bandit_init (rnd k) \<Longrightarrow> n \<le> total_episodes \<Longrightarrow>
     \<forall>k<n. valid_draws contextual_bandit_init (rnd k)"
  by simp

lemma state_after_step:
  assumes "\<forall>k<total_episodes. valid_draws contextual_bandit_init (rnd k)" "n < total_episodes"
  shows "\<exists>st st'. state_after rnd n = Inr st \<and> train_inv st \<and>
           valid_draws contextual_bandit_init (rnd n) \<and>
           episode (rnd n) n st = Inr st' \<and> train_inv st' \<and> state_after rnd (Suc n) = Inr st'"
proof -
  from assms have "\<forall>k<n. valid_draws contextual_bandit_init (rnd k)"
    by simp
  from state_after_inv [OF this] obtain st where st: "state_after rnd n = Inr st" "train_inv st"
    by blast
  from assms have d: "valid_draws contextual_bandit_init (rnd n)"
    by simp
  from episode_inv [OF st(2) d, of n] obtain st' where "episode (rnd n) n st = Inr st'" "train_inv st'"
    by blast
  with st d show ?thesis by simp
qed

subsection \<open>The final summary\<close>


lemma nat_below_3: "(a::nat) < 3 \<Longrightarrow> a = 0 \<or> a = 1 \<or> a = 2"
  by arith

lemma np_argmin_bandits:
  "a < 3 \<Longrightarrow> np_argmin (bandits contextual_bandit_init ! a) = Inr ([3, 1, 0] ! a)"
  by (auto dest!: nat_below_3 simp: bandits_init np_argmin_def)

lemma str_nat_digit: "n < 10 \<Longrightarrow> str_nat n = [''0123456789'' ! n]"
  by (simp add: str_nat.simps)

lemma str_nat_action: "k < 4 \<Longrightarrow> str_nat (k + 1) = [''1234'' ! k]"
proof -
  assume "k < 4"
  then have "k = 0 \<or> k = 1 \<or> k = 2 \<or> k = 3" by arith
  then show ?thesis by (auto simp: str_nat_digit)
qed

lemma str_nat_bandit: "a < 3 \<Longrightarrow> str_nat (a + 1) = [''123'' ! a]"
  by (auto dest!: nat_below_3 simp: str_nat_digit)

lemma summary_row_in_range:
  assumes "bandits env = bandits contextual_bandit_init" "has_shape w 3 4" "a < 3"
  shows "\<exists>k. np_argmax (w ! a) = Inr k \<and> first_max_at (w ! a) k \<and> k < 4 \<and>
           summary_row env w a = Inr [promising_line k a, verdict_line (k = [3, 1, 0] ! a)]"
proof -
  have len: "length w = 3" "length (w ! a) = 4"
    using assms(2,3) by (simp_all add: has_shape_def list_all_length)
  then have "w ! a \<noteq> []" by auto
  from np_argmax_first_max [OF this] obtain k where
    k: "np_argmax (w ! a) = Inr k" "first_max_at (w ! a) k"
    by blast
  have k4: "k < 4"
    using k(2) len(2) by (simp add: first_max_at_def)
  have rows: "np_row w a = Inr (w ! a)" "np_row (bandits env) a = Inr (bandits env ! a)"
    using assms(3) len(1) by (simp_all add: np_row_def assms(1) bandits_init)
  have "np_argmin (bandits env ! a) = Inr ([3, 1, 0] ! a)"
    using assms(3) by (simp add: assms(1) np_argmin_bandits)
  with k k4 rows show ?thesis
    by (simp add: summary_row_def)
qed






subsection \<open>Claims about the environment\<close>

text \<open>
  Claim C1. For a table of shape \<open>(num_bandits, num_actions)\<close>, as the one of the
  notebook is, a current state \<open>s\<close> in \<open>[0, num_bandits)\<close> and an action \<open>a\<close> in
  \<open>[0, num_actions)\<close>, \<open>pullArm\<close> raises nothing and, for every value \<open>z\<close> of the
  normal draw, returns \<open>+1\<close> when \<open>z\<close> exceeds the threshold stored at \<open>(s, a)\<close> and
  \<open>-1\<close> otherwise; so the reward is \<open>+1\<close> or \<open>-1\<close> and nothing else.
\<close>

theorem pullArm_reward:
  assumes "has_shape (bandits env) (num_bandits env) (num_actions env)"
    and "0 \<le> s" and "s < int (num_bandits env)"
    and "0 \<le> a" and "a < int (num_actions env)"
  shows "pullArm (env\<lparr>state := s\<rparr>) a z =
           Inr (if z > bandits env ! nat s ! nat a then 1 else - 1) \<and>
         (pullArm (env\<lparr>state := s\<rparr>) a z = Inr 1 \<or> pullArm (env\<lparr>state := s\<rparr>) a z = Inr (- 1))"
proof -
  have "length (bandits env) = num_bandits env"
    using assms(1) by (simp add: has_shape_def)
  moreover have "length (bandits env ! nat s) = num_actions env"
    using assms(1-3) by (rule has_shape_row)
  ultimately have "np_get2 (bandits env) s a = Inr (bandits env ! nat s ! nat a)"
    using assms(2-5) by (intro np_get2_in_range) simp_all
  then show ?thesis
    by (simp add: pullArm_def)
qed

theorem pullArm_reward_witness:
  "pullArm (contextual_bandit_init\<lparr>state := 1\<rparr>) 3 (1/2) = Inr 1 \<and>
   pullArm (contextual_bandit_init\<lparr>state := 1\<rparr>) 3 (1/4) = Inr (- 1)"
proof -
  have shp: "has_shape (bandits contextual_bandit_init) (num_bandits contextual_bandit_init)
               (num_actions contextual_bandit_init)"
    by (simp add: has_shape_def bandits_init num_init)
  have rng: "(0::int) \<le> 1" "1 < int (num_bandits contextual_bandit_init)"
    "(0::int) \<le> 3" "3 < int (num_actions contextual_bandit_init)"
    by (simp_all add: num_init)
  from pullArm_reward [OF shp rng, of "1/2"] pullArm_reward [OF shp rng, of "1/4"]
  show ?thesis
    by (simp add: bandits_init)
qed

text \<open>
  Claim C5, as stated, fails: \<open>pullArm\<close> takes the action only and reads the row from
  the field \<open>state\<close> of the environment. Two environments that differ in that field
  alone give different rewards for the same action and the same draw.
\<close>

theorem pullArm_reads_state_field:
  "pullArm (contextual_bandit_init\<lparr>state := 0\<rparr>) 3 0 = Inr 1 \<and>
   pullArm (contextual_bandit_init\<lparr>state := 2\<rparr>) 3 0 = Inr (- 1)"
  by (simp add: pullArm_def np_get2_def np_index_def bandits_init)

text \<open>
  Claim C5, amended. \<open>pullArm\<close> receives the action only; the state it uses is the
  field \<open>state\<close>, which \<open>getBandit\<close> has set to the value it returned. So after
  \<open>getBandit\<close> has returned \<open>s\<close>, the reward is the one the specification's pull
  gives for the pair \<open>(s, a)\<close> and the same draw.
\<close>

theorem pullArm_after_getBandit:
  assumes "getBandit env d = Inr (env', s)"
  shows "state env' = s \<and> s = d \<and> bandits env' = bandits env \<and>
         pullArm env' a z = pull_spec (bandits env) s a z"
  using assms by (auto simp: getBandit_def pullArm_def pull_spec_def Let_def split: if_splits)

theorem pullArm_after_getBandit_witness:
  "getBandit contextual_bandit_init 2 = Inr (contextual_bandit_init\<lparr>state := 2\<rparr>, 2) \<and>
   pullArm (contextual_bandit_init\<lparr>state := 2\<rparr>) 0 0 =
     pull_spec (bandits contextual_bandit_init) 2 0 0"
proof -
  have g: "getBandit contextual_bandit_init 2 = Inr (contextual_bandit_init\<lparr>state := 2\<rparr>, 2)"
    by (simp add: getBandit_def bandits_init)
  show ?thesis using g pullArm_after_getBandit [OF g, of 0 0] by simp
qed

subsection \<open>Claims about the agent\<close>







subsection \<open>Claims about the training loop\<close>





text \<open>
  Claim C9. With draws in the ranges numpy promises, in every episode \<open>n\<close> of the run:
  the state returned by \<open>getBandit\<close> is the one stored in the environment and lies in
  \<open>[0, num_bandits)\<close>, the number of rows of the table; the chosen action, random or
  from the network, lies in \<open>[0, num_actions)\<close>, the length of that row; the lookup of
  the table in \<open>pullArm\<close> is in range; the reward is \<open>+1\<close> or \<open>-1\<close>; the episode
  raises nothing, and neither does the loop as a whole.
\<close>

theorem training_indices_in_range:
  assumes "\<forall>k<total_episodes. valid_draws contextual_bandit_init (rnd k)"
    and "n < total_episodes"
  shows "(\<exists>st env' s action reward st'.
            state_after rnd n = Inr st \<and>
            getBandit (cBandit st) (randint_state (rnd n)) = Inr (env', s) \<and>
            state env' = s \<and> 0 \<le> s \<and> s < int (num_bandits env') \<and>
            num_bandits env' = length (bandits env') \<and>
            choose_action st (rnd n) s = Inr action \<and>
            0 \<le> action \<and> action < int (num_actions env') \<and>
            num_actions env' = length (bandits env' ! nat s) \<and>
            np_get2 (bandits env') (state env') action = Inr (bandits env' ! nat s ! nat action) \<and>
            pullArm env' action (randn_pull (rnd n)) = Inr reward \<and>
            (reward = 1 \<or> reward = - 1) \<and>
            state_after rnd (Suc n) = Inr st') \<and>
         (\<exists>st. train_loop rnd 0 train_init = Inr st)"
proof -
  from state_after_step [OF assms] obtain st st' where
    st: "state_after rnd n = Inr st" "train_inv st" "valid_draws contextual_bandit_init (rnd n)"
      "state_after rnd (Suc n) = Inr st'"
    by blast
  let ?d = "rnd n"
  let ?s = "randint_state ?d"
  let ?env = "(cBandit st)\<lparr>state := ?s\<rparr>"
  have s: "0 \<le> ?s" "?s < 3"
    using st(3) by (simp_all add: valid_draws_init)
  from episode_in_range [OF st(2,3), of n] obtain action reward where
    a: "choose_action st ?d ?s = Inr action" "0 \<le> action" "action < 4"
    and p: "pullArm ?env action (randn_pull ?d) = Inr reward" "reward = 1 \<or> reward = - 1"
    by blast
  have tbl: "bandits ?env = [[1/5, 0, 0, - 5], [1/10, - 5, 1, 1/4], [- 5, 5, 5, 5]]"
    and nums: "num_bandits ?env = 3" "num_actions ?env = 4"
    using st(2) by (simp_all add: train_inv_def bandits_init)
  have row: "length (bandits ?env ! nat ?s) = 4"
    using int_below_3 [OF s] by (auto simp: tbl)
  have get: "np_get2 (bandits ?env) (state ?env) action = Inr (bandits ?env ! nat ?s ! nat action)"
  proof -
    have "np_get2 (bandits ?env) ?s action = Inr (bandits ?env ! nat ?s ! nat action)"
      using s a(2,3) row by (intro np_get2_in_range) (simp_all add: tbl)
    then show ?thesis by simp
  qed
  have "getBandit (cBandit st) ?s = Inr (?env, ?s)"
    by (rule getBandit_inv [OF st(2)])
  with st(1,4) s a p nums row get
  have "\<exists>st env' s action reward st'.
            state_after rnd n = Inr st \<and>
            getBandit (cBandit st) (randint_state (rnd n)) = Inr (env', s) \<and>
            state env' = s \<and> 0 \<le> s \<and> s < int (num_bandits env') \<and>
            num_bandits env' = length (bandits env') \<and>
            choose_action st (rnd n) s = Inr action \<and>
            0 \<le> action \<and> action < int (num_actions env') \<and>
            num_actions env' = length (bandits env' ! nat s) \<and>
            np_get2 (bandits env') (state env') action = Inr (bandits env' ! nat s ! nat action) \<and>
            pullArm env' action (randn_pull (rnd n)) = Inr reward \<and>
            (reward = 1 \<or> reward = - 1) \<and>
            state_after rnd (Suc n) = Inr st'"
    by (intro exI [of _ st] exI [of _ ?env] exI [of _ ?s] exI [of _ action] exI [of _ reward]
        exI [of _ st']) (simp add: tbl)
  moreover from state_after_inv [OF assms(1)] have "\<exists>st. train_loop rnd 0 train_init = Inr st"
    by (auto simp: train_loop_eq)
  ultimately show ?thesis by blast
qed

theorem training_indices_in_range_witness:
  "\<exists>st. train_loop (\<lambda>n. \<lparr>randint_state = 2, rand_explore = 0, randint_action = 3, randn_pull = 0\<rparr>)
           0 train_init = Inr st"
proof -
  let ?rnd = "\<lambda>n::nat. \<lparr>randint_state = 2, rand_explore = 0, randint_action = 3, randn_pull = 0\<rparr>"
  have dr: "\<forall>k<total_episodes. valid_draws contextual_bandit_init (?rnd k)"
    by (simp add: valid_draws_init)
  have n: "0 < total_episodes"
    by (simp add: total_episodes_def)
  from training_indices_in_range [OF dr n] show ?thesis
    by blast
qed

subsection \<open>Claims about the final summary\<close>



text \<open>
  Claim C10. For a matrix \<open>w\<close> of shape \<open>(3, 4)\<close> and a row \<open>a\<close>, with \<open>k\<close> the result of
  \<open>np.argmax\<close> on row \<open>a\<close> of \<open>w\<close> and \<open>m\<close> the result of \<open>np.argmin\<close> on row \<open>a\<close> of
  the table: the first line printed contains \<open>str (k + 1)\<close> as the action number and
  \<open>str (a + 1)\<close> as the bandit number, which are the single digits 1 to 4 and 1 to 3,
  while the verdict compares the indices \<open>k\<close> and \<open>m\<close> themselves.
\<close>

theorem summary_numbers_one_based:
  assumes "bandits env = bandits contextual_bandit_init" and "has_shape w 3 4" and "a < 3"
  shows "\<exists>k m. np_argmax (w ! a) = Inr k \<and> np_argmin (bandits env ! a) = Inr m \<and>
           k < 4 \<and> m < 4 \<and>
           summary_row env w a = Inr [promising_line k a, verdict_line (k = m)] \<and>
           promising_line k a =
             ''The agent thinks action '' @ str_nat (k + 1) @ '' for bandit '' @ str_nat (a + 1) @
             '' is the most promising....'' \<and>
           str_nat (k + 1) = [''1234'' ! k] \<and> str_nat (a + 1) = [''123'' ! a]"
proof -
  from summary_row_in_range [OF assms] obtain k where
    k: "np_argmax (w ! a) = Inr k" "k < 4"
      "summary_row env w a = Inr [promising_line k a, verdict_line (k = [3, 1, 0] ! a)]"
    by blast
  have m: "np_argmin (bandits env ! a) = Inr ([3, 1, 0] ! a)"
    unfolding assms(1) using assms(3) by (rule np_argmin_bandits)
  have m4: "[3, 1, 0] ! a < (4::nat)"
    using assms(3) by (auto dest!: nat_below_3)
  have sk: "str_nat (k + 1) = [''1234'' ! k]"
    using k(2) by (rule str_nat_action)
  have sa: "str_nat (a + 1) = [''123'' ! a]"
    using assms(3) by (rule str_nat_bandit)
  have pl: "promising_line k a =
             ''The agent thinks action '' @ str_nat (k + 1) @ '' for bandit '' @ str_nat (a + 1) @
             '' is the most promising....''"
    by (rule promising_line_def)
  from k m m4 sk sa pl show ?thesis
    by blast
qed

theorem summary_numbers_one_based_witness:
  "summary_row contextual_bandit_init [[1, 2, 3, 4], [1, 5, 5, 0], [0, 0, 0, 0]] 1 =
     Inr [''The agent thinks action 2 for bandit 2 is the most promising....'',
          ''...and it was right!'']"
proof -
  let ?w = "[[1, 2, 3, 4], [1, 5, 5, 0], [0, 0, 0, 0::real]]"
  have shp: "has_shape ?w 3 4"
    by (simp add: has_shape_def)
  have a: "(1::nat) < 3"
    by simp
  from summary_numbers_one_based [OF refl shp a] obtain k m where
    km: "np_argmax (?w ! 1) = Inr k" "np_argmin (bandits contextual_bandit_init ! 1) = Inr m"
      "summary_row contextual_bandit_init ?w 1 = Inr [promising_line k 1, verdict_line (k = m)]"
      "promising_line k 1 =
             ''The agent thinks action '' @ str_nat (k + 1) @ '' for bandit '' @ str_nat (1 + 1) @
             '' is the most promising....''"
      "str_nat (k + 1) = [''1234'' ! k]" "str_nat (1 + 1) = [''123'' ! 1]"
    by blast
  from km(1) have k: "k = 1"
    by (simp add: np_argmax_def)
  from km(2) have m: "m = 1"
    by (simp add: np_argmin_def bandits_init)
  from km(3-6) show ?thesis
    unfolding k m by (simp add: verdict_line_def)
qed

end
